theory Spec2Isabelle
  imports Main
begin

section \<open>The command-line front end of the emulator\<close>

text \<open>
  A shallow embedding of \<^verbatim>\<open>src/common/arg_parser.cpp\<close> (\<^verbatim>\<open>ArgParser::Parse\<close>),
  \<^verbatim>\<open>src/main.cpp\<close> (\<^verbatim>\<open>ResolveGamePath\<close>, \<^verbatim>\<open>main\<close>) and
  \<^verbatim>\<open>src/core/game_util.cpp\<close> (\<^verbatim>\<open>ResolveGameFolder\<close>, \<^verbatim>\<open>ParseFullscreenParam\<close>).

  Calls that leave the shown sources (the configuration store, the logger, the memory
  patcher, the debugger, the emulator, the two output streams) are recorded, in order, as
  events; nothing is assumed about what they do. The file system is a parameter: a record
  of the predicates the code asks. A call of \<^verbatim>\<open>exit(n)\<close> is the value \<open>Inl (n, s)\<close>,
  with \<open>s\<close> the state at the call.
\<close>

subsection \<open>Paths and the file system\<close>

type_synonym path = string

record filesys =
  fs_exists :: "path \<Rightarrow> bool"
  fs_is_directory :: "path \<Rightarrow> bool"
  fs_is_regular_file :: "path \<Rightarrow> bool"

subsection \<open>\<^verbatim>\<open>std::stoi\<close> with base 10\<close>

text \<open>
  \<^verbatim>\<open>std::stoi(str)\<close> is \<^verbatim>\<open>strtol\<close> with base 10 and two exceptions: leading white space
  is skipped, one sign is optional, then the longest run of decimal digits is read and
  whatever follows it is ignored. No digit at all throws \<^verbatim>\<open>std::invalid_argument\<close>; a value
  outside the range of \<^verbatim>\<open>int\<close> (32 bits) throws \<^verbatim>\<open>std::out_of_range\<close>.
\<close>

datatype stoi_error = invalid_argument | out_of_range

definition isspace :: "char \<Rightarrow> bool" where
  "isspace c \<longleftrightarrow>
     c = CHR '' '' \<or> c = CHR 0x09 \<or> c = CHR 0x0A \<or> c = CHR 0x0B \<or> c = CHR 0x0C \<or> c = CHR 0x0D"

definition isdigit :: "char \<Rightarrow> bool" where
  "isdigit c \<longleftrightarrow> (48::nat) \<le> of_char c \<and> of_char c \<le> (57::nat)"

fun digits_value :: "nat \<Rightarrow> string \<Rightarrow> nat" where
  "digits_value acc [] = acc"
| "digits_value acc (c # cs) = digits_value (10 * acc + (of_char c - 48)) cs"

definition INT_MIN :: int where
  "INT_MIN = - 2147483648"

definition INT_MAX :: int where
  "INT_MAX = 2147483647"

definition stoi :: "string \<Rightarrow> stoi_error + int" where
  "stoi str =
     (let s1 = dropWhile isspace str;
          negative = (case s1 of [] \<Rightarrow> False | c # _ \<Rightarrow> c = CHR ''-'');
          s2 = (case s1 of [] \<Rightarrow> [] | c # cs \<Rightarrow> if c = CHR ''-'' \<or> c = CHR ''+'' then cs else s1);
          ds = takeWhile isdigit s2
      in if ds = [] then Inl invalid_argument
         else let v = (if negative then - int (digits_value 0 ds) else int (digits_value 0 ds))
              in if v < INT_MIN \<or> INT_MAX < v then Inl out_of_range else Inr v)"

subsection \<open>What the parser produces and what it does to the outside\<close>

record ParsedArgs =
  has_game_argument :: bool
  game_path :: string
  game_args :: "string list"
  game_folder :: "path option"
  wait_for_debugger :: bool
  wait_pid :: "int option"

definition ParsedArgs_default :: ParsedArgs where
  "ParsedArgs_default =
     \<lparr>has_game_argument = False, game_path = [], game_args = [], game_folder = None,
      wait_for_debugger = False, wait_pid = None\<rparr>"

datatype ConfigMode = Clean | Global

datatype message =
    Usage
  | MissingArgument string
  | InvalidFullscreenArgument string
  | GameFolderSaved
  | AddonFolderSaved
  | FileDoesNotExist string
  | FolderDoesNotExist string
  | InvalidPidArgument stoi_error
  | NoGameArgumentsWarning
  | UnknownArgument string
  | ProvideGamePath
  | NoGameFolderWarning
  | GameNotFound string

datatype event =
    Cout message
  | Cerr message
  | SetPatchFile string
  | SetIgnoreGamePatches
  | SetIsFullscreen bool
  | AddGameInstallDir path
  | SetAddonInstallDir path
  | ConfigSave
  | LogSetAppend
  | SetConfigMode ConfigMode
  | SetShowFpsCounter bool
  | InitializeSystem
  | ShowNoArgumentDialog
  | FindGameByID path string int
  | WaitForPid int
  | EmulatorRun string bool path "string list" "path option"

text \<open>
  The state of the parser object during \<^verbatim>\<open>Parse\<close>: its member \<^verbatim>\<open>result\<close> and the events
  so far. \<open>game_path_assigned\<close> is a ghost field, absent from the source: it is set exactly
  where the source assigns \<^verbatim>\<open>result.game_path\<close> and is read by no branch.
\<close>

record parser_state =
  result :: ParsedArgs
  events :: "event list"
  game_path_assigned :: bool

definition emit :: "event \<Rightarrow> parser_state \<Rightarrow> parser_state" where
  "emit e st = st\<lparr>events := events st @ [e]\<rparr>"

definition set_game_path :: "string \<Rightarrow> parser_state \<Rightarrow> parser_state" where
  "set_game_path p st =
     st\<lparr>result := (result st)\<lparr>game_path := p, has_game_argument := True\<rparr>,
        game_path_assigned := True\<rparr>"

definition initial_state :: parser_state where
  "initial_state = \<lparr>result = ParsedArgs_default, events = [], game_path_assigned = False\<rparr>"

subsection \<open>The table of callbacks\<close>

datatype callback =
    help_callback
  | game_callback
  | patch_callback
  | ignore_game_patch_callback
  | fullscreen_callback
  | add_game_folder_callback
  | set_addon_folder_callback
  | log_append_callback
  | config_clean_callback
  | config_global_callback
  | override_root_callback
  | wait_for_debugger_callback
  | wait_for_pid_callback
  | show_fps_callback

definition PrintHelp :: "parser_state \<Rightarrow> parser_state" where
  "PrintHelp st = emit (Cout Usage) st"

text \<open>A callback returns (\<open>Inr\<close>) or ends the process (\<open>Inl\<close>); none changes the index.\<close>

fun run_callback :: "callback \<Rightarrow> parser_state \<Rightarrow> (int \<times> parser_state) + parser_state" where
  "run_callback help_callback st = Inl (0, PrintHelp st)"
| "run_callback game_callback st = Inr st"
| "run_callback patch_callback st = Inr st"
| "run_callback ignore_game_patch_callback st = Inr (emit SetIgnoreGamePatches st)"
| "run_callback fullscreen_callback st = Inr st"
| "run_callback add_game_folder_callback st = Inr st"
| "run_callback set_addon_folder_callback st = Inr st"
| "run_callback log_append_callback st = Inr (emit LogSetAppend st)"
| "run_callback config_clean_callback st = Inr (emit (SetConfigMode Clean) st)"
| "run_callback config_global_callback st = Inr (emit (SetConfigMode Global) st)"
| "run_callback override_root_callback st = Inr st"
| "run_callback wait_for_debugger_callback st =
     Inr (st\<lparr>result := (result st)\<lparr>wait_for_debugger := True\<rparr>\<rparr>)"
| "run_callback wait_for_pid_callback st = Inr st"
| "run_callback show_fps_callback st = Inr (emit (SetShowFpsCounter True) st)"

definition RegisterArguments :: "string \<rightharpoonup> callback" where
  "RegisterArguments =
     [''-h'' \<mapsto> help_callback,
      ''--help'' \<mapsto> help_callback,
      ''-g'' \<mapsto> game_callback,
      ''--game'' \<mapsto> game_callback,
      ''-p'' \<mapsto> patch_callback,
      ''--patch'' \<mapsto> patch_callback,
      ''-i'' \<mapsto> ignore_game_patch_callback,
      ''--ignore-game-patch'' \<mapsto> ignore_game_patch_callback,
      ''-f'' \<mapsto> fullscreen_callback,
      ''--fullscreen'' \<mapsto> fullscreen_callback,
      ''--add-game-folder'' \<mapsto> add_game_folder_callback,
      ''--set-addon-folder'' \<mapsto> set_addon_folder_callback,
      ''--log-append'' \<mapsto> log_append_callback,
      ''--config-clean'' \<mapsto> config_clean_callback,
      ''--config-global'' \<mapsto> config_global_callback,
      ''--override-root'' \<mapsto> override_root_callback,
      ''--wait-for-debugger'' \<mapsto> wait_for_debugger_callback,
      ''--wait-for-pid'' \<mapsto> wait_for_pid_callback,
      ''--show-fps'' \<mapsto> show_fps_callback]"

definition arg_map :: "string \<rightharpoonup> callback" where
  "arg_map = RegisterArguments"

definition ValidatePath :: "filesys \<Rightarrow> string \<Rightarrow> bool \<Rightarrow> string option" where
  "ValidatePath fs p is_file =
     (if is_file then (if fs_is_regular_file fs p then Some p else None)
      else (if fs_is_directory fs p then Some p else None))"

subsection \<open>One iteration of the loop of \<^verbatim>\<open>Parse\<close>\<close>

text \<open>
  What one iteration does with the loop variable: \<open>Continue j s\<close> is the statement
  \<^verbatim>\<open>continue\<close> (or the end of the body) with \<^verbatim>\<open>i == j\<close>, after which the loop
  increments \<^verbatim>\<open>i\<close>; \<open>Break s\<close> is \<^verbatim>\<open>break\<close>; \<open>Exit n s\<close> is \<^verbatim>\<open>exit(n)\<close>.
\<close>

datatype loop_ctl = Continue nat parser_state | Break parser_state | Exit int parser_state

text \<open>\<^verbatim>\<open>-g\<close>, \<^verbatim>\<open>--game\<close>\<close>

definition handle_game :: "string list \<Rightarrow> nat \<Rightarrow> parser_state \<Rightarrow> loop_ctl" where
  "handle_game argv i st =
     (if i + 1 < length argv then Continue (i + 1) (set_game_path (argv ! (i + 1)) st)
      else Exit 1 (emit (Cerr (MissingArgument (argv ! i))) st))"

text \<open>\<^verbatim>\<open>-p\<close>, \<^verbatim>\<open>--patch\<close>\<close>

definition handle_patch :: "string list \<Rightarrow> nat \<Rightarrow> parser_state \<Rightarrow> loop_ctl" where
  "handle_patch argv i st =
     (if i + 1 < length argv then Continue (i + 1) (emit (SetPatchFile (argv ! (i + 1))) st)
      else Exit 1 (emit (Cerr (MissingArgument (argv ! i))) st))"

text \<open>\<^verbatim>\<open>-f\<close>, \<^verbatim>\<open>--fullscreen\<close>\<close>

definition handle_fullscreen :: "string list \<Rightarrow> nat \<Rightarrow> parser_state \<Rightarrow> loop_ctl" where
  "handle_fullscreen argv i st =
     (if i + 1 \<ge> length argv then Exit 1 (emit (Cerr (MissingArgument (argv ! i))) st)
      else let f_param = argv ! (i + 1) in
        if f_param = ''true'' then Continue (i + 1) (emit (SetIsFullscreen True) st)
        else if f_param = ''false'' then Continue (i + 1) (emit (SetIsFullscreen False) st)
        else Exit 1 (emit (Cerr (InvalidFullscreenArgument (argv ! i))) st))"

text \<open>\<^verbatim>\<open>--add-game-folder\<close>\<close>

definition handle_add_game_folder ::
  "filesys \<Rightarrow> string list \<Rightarrow> nat \<Rightarrow> parser_state \<Rightarrow> loop_ctl" where
  "handle_add_game_folder fs argv i st =
     (if i + 1 \<ge> length argv then Exit 1 (emit (Cerr (MissingArgument (argv ! i))) st)
      else let config_dir = argv ! (i + 1) in
        case ValidatePath fs config_dir False of
          Some validated \<Rightarrow>
            Exit 0 (emit (Cout GameFolderSaved) (emit ConfigSave (emit (AddGameInstallDir validated) st)))
        | None \<Rightarrow> Exit 1 (emit (Cerr (FileDoesNotExist config_dir)) st))"

text \<open>\<^verbatim>\<open>--set-addon-folder\<close>\<close>

definition handle_set_addon_folder ::
  "filesys \<Rightarrow> string list \<Rightarrow> nat \<Rightarrow> parser_state \<Rightarrow> loop_ctl" where
  "handle_set_addon_folder fs argv i st =
     (if i + 1 \<ge> length argv then Exit 1 (emit (Cerr (MissingArgument (argv ! i))) st)
      else let config_dir = argv ! (i + 1) in
        case ValidatePath fs config_dir False of
          Some validated \<Rightarrow>
            Exit 0 (emit (Cout AddonFolderSaved) (emit ConfigSave (emit (SetAddonInstallDir validated) st)))
        | None \<Rightarrow> Exit 1 (emit (Cerr (FileDoesNotExist config_dir)) st))"

text \<open>\<^verbatim>\<open>--override-root\<close>\<close>

definition handle_override_root ::
  "filesys \<Rightarrow> string list \<Rightarrow> nat \<Rightarrow> parser_state \<Rightarrow> loop_ctl" where
  "handle_override_root fs argv i st =
     (if i + 1 \<ge> length argv then Exit 1 (emit (Cerr (MissingArgument (argv ! i))) st)
      else let folder = argv ! (i + 1) in
        if fs_exists fs folder \<and> fs_is_directory fs folder
        then Continue (i + 1) (st\<lparr>result := (result st)\<lparr>game_folder := Some folder\<rparr>\<rparr>)
        else Exit 1 (emit (Cerr (FolderDoesNotExist folder)) st))"

text \<open>\<^verbatim>\<open>--wait-for-pid\<close>\<close>

definition handle_wait_for_pid :: "string list \<Rightarrow> nat \<Rightarrow> parser_state \<Rightarrow> loop_ctl" where
  "handle_wait_for_pid argv i st =
     (if i + 1 \<ge> length argv then Exit 1 (emit (Cerr (MissingArgument (argv ! i))) st)
      else case stoi (argv ! (i + 1)) of
          Inr n \<Rightarrow> Continue (i + 1) (st\<lparr>result := (result st)\<lparr>wait_pid := Some n\<rparr>\<rparr>)
        | Inl e \<Rightarrow> Exit 1 (emit (Cerr (InvalidPidArgument e)) st))"

text \<open>The arguments registered in the map, the two help spellings excepted.\<close>

definition handle_registered :: "callback \<Rightarrow> nat \<Rightarrow> parser_state \<Rightarrow> loop_ctl" where
  "handle_registered cb i st =
     (case run_callback cb st of Inl (code, st') \<Rightarrow> Exit code st' | Inr st' \<Rightarrow> Continue i st')"

text \<open>\<^verbatim>\<open>--\<close>: the game arguments\<close>

definition handle_separator :: "string list \<Rightarrow> nat \<Rightarrow> parser_state \<Rightarrow> loop_ctl" where
  "handle_separator argv i st =
     (if i + 1 = length argv then Break (emit (Cerr NoGameArgumentsWarning) st)
      else Break (st\<lparr>result := (result st)\<lparr>game_args := game_args (result st) @ drop (i + 1) argv\<rparr>\<rparr>))"

text \<open>
  The last argument as the game file. \<^verbatim>\<open>cur_arg[0]\<close> of an empty \<^verbatim>\<open>std::string\<close> is the
  terminating null character.
\<close>

definition first_char :: "string \<Rightarrow> char" where
  "first_char s = (case s of [] \<Rightarrow> CHR 0x00 | c # _ \<Rightarrow> c)"

definition is_last_without_game :: "string list \<Rightarrow> nat \<Rightarrow> parser_state \<Rightarrow> bool" where
  "is_last_without_game argv i st \<longleftrightarrow>
     int i = int (length argv) - 1 \<and> \<not> has_game_argument (result st)"

definition next_is_separator :: "string list \<Rightarrow> nat \<Rightarrow> bool" where
  "next_is_separator argv i \<longleftrightarrow> i + 1 < length argv \<and> argv ! (i + 1) = ''--''"

definition handle_positional :: "string list \<Rightarrow> nat \<Rightarrow> parser_state \<Rightarrow> loop_ctl" where
  "handle_positional argv i st =
     (if is_last_without_game argv i st \<and> next_is_separator argv i
        then Continue i (set_game_path (argv ! i) st)
      else if is_last_without_game argv i st \<and> first_char (argv ! i) \<noteq> CHR ''-''
        then Continue i (set_game_path (argv ! i) st)
      else Continue i (emit (Cerr (UnknownArgument (argv ! i))) st))"

definition parse_step :: "filesys \<Rightarrow> string list \<Rightarrow> nat \<Rightarrow> parser_state \<Rightarrow> loop_ctl" where
  "parse_step fs argv i st =
     (let cur_arg = argv ! i in
      if cur_arg = ''-g'' \<or> cur_arg = ''--game'' then handle_game argv i st
      else if cur_arg = ''-p'' \<or> cur_arg = ''--patch'' then handle_patch argv i st
      else if cur_arg = ''-f'' \<or> cur_arg = ''--fullscreen'' then handle_fullscreen argv i st
      else if cur_arg = ''--add-game-folder'' then handle_add_game_folder fs argv i st
      else if cur_arg = ''--set-addon-folder'' then handle_set_addon_folder fs argv i st
      else if cur_arg = ''--override-root'' then handle_override_root fs argv i st
      else if cur_arg = ''--wait-for-pid'' then handle_wait_for_pid argv i st
      else case arg_map cur_arg of
          Some cb \<Rightarrow>
            if cur_arg \<noteq> ''-h'' \<and> cur_arg \<noteq> ''--help'' then handle_registered cb i st
            else if cur_arg = ''--'' then handle_separator argv i st
            else handle_positional argv i st
        | None \<Rightarrow>
            if cur_arg = ''--'' then handle_separator argv i st
            else handle_positional argv i st)"

subsection \<open>The loop and \<^verbatim>\<open>Parse\<close>\<close>

function parse_loop ::
  "filesys \<Rightarrow> string list \<Rightarrow> nat \<Rightarrow> parser_state \<Rightarrow> (int \<times> parser_state) + parser_state" where
  "parse_loop fs argv i st =
     (if i < length argv then
        (case parse_step fs argv i st of
           Continue j st' \<Rightarrow> parse_loop fs argv (Suc j) st'
         | Break st' \<Rightarrow> Inr st'
         | Exit code st' \<Rightarrow> Inl (code, st'))
      else Inr st)"
  by pat_completeness auto
termination
proof (relation "measure (\<lambda>(fs, argv, i, st). length argv - i)")
  show "wf (measure (\<lambda>(fs, argv, i, st). length argv - i))"
    by simp
next
  fix fs :: filesys and argv :: "string list" and i :: nat and st st' :: parser_state and j :: nat
  assume in_range: "i < length argv" and step: "parse_step fs argv i st = Continue j st'"
  have "handle_registered cb i st = Continue j st' \<Longrightarrow> j = i" for cb
    by (auto simp: handle_registered_def split: sum.splits prod.splits)
  with step have "i \<le> j"
    by (auto simp: parse_step_def Let_def handle_game_def handle_patch_def
        handle_fullscreen_def handle_add_game_folder_def handle_set_addon_folder_def
        handle_override_root_def handle_wait_for_pid_def handle_separator_def
        handle_positional_def
        split: if_splits option.splits sum.splits)
  with in_range
  show "((fs, argv, Suc j, st'), (fs, argv, i, st)) \<in> measure (\<lambda>(fs, argv, i, st). length argv - i)"
    by auto
qed

declare parse_loop.simps [simp del]

definition Parse ::
  "filesys \<Rightarrow> string list \<Rightarrow> (int \<times> parser_state) + parser_state" where
  "Parse fs argv =
     (if length argv = 1 then Inl (1, PrintHelp initial_state)
      else parse_loop fs argv 1 initial_state)"

text \<open>
  The iterations an execution goes through: \<open>reaches fs argv i st k st'\<close> says that the
  loop, at its head with index \<open>i\<close> and state \<open>st\<close>, later stands at its head with index
  \<open>k\<close> and state \<open>st'\<close>.
\<close>

inductive reaches ::
  "filesys \<Rightarrow> string list \<Rightarrow> nat \<Rightarrow> parser_state \<Rightarrow> nat \<Rightarrow> parser_state \<Rightarrow> bool"
  for fs :: filesys and argv :: "string list" where
  here: "reaches fs argv i st i st"
| iteration:
    "i < length argv \<Longrightarrow> parse_step fs argv i st = Continue j st' \<Longrightarrow>
     reaches fs argv (Suc j) st' k st'' \<Longrightarrow> reaches fs argv i st k st''"

subsection \<open>\<^verbatim>\<open>Core::GameUtil\<close>\<close>

definition ParseFullscreenParam :: "string \<Rightarrow> bool option" where
  "ParseFullscreenParam param =
     (if param = ''true'' then Some True
      else if param = ''false'' then Some False
      else None)"

text \<open>
  \<^verbatim>\<open>std::filesystem::path\<close> is not part of the sources: the three operations
  \<^verbatim>\<open>ResolveGameFolder\<close> uses are parameters.
\<close>

record path_ops =
  parent_path :: "path \<Rightarrow> path"
  filename :: "path \<Rightarrow> string"
  append_path :: "path \<Rightarrow> string \<Rightarrow> path"

definition ends_with :: "string \<Rightarrow> string \<Rightarrow> bool" where
  "ends_with s sfx \<longleftrightarrow> length sfx \<le> length s \<and> drop (length s - length sfx) s = sfx"

text \<open>\<^verbatim>\<open>s.rfind(c)\<close>: the index of the last \<^verbatim>\<open>c\<close>, \<open>None\<close> for \<^verbatim>\<open>npos\<close>.\<close>

definition rfind :: "string \<Rightarrow> char \<Rightarrow> nat option" where
  "rfind s c =
     (if c \<in> set s then Some (length s - 1 - length (takeWhile (\<lambda>x. x \<noteq> c) (rev s)))
      else None)"

text \<open>\<^verbatim>\<open>s.substr(0, n)\<close>; with \<^verbatim>\<open>npos\<close> the whole string.\<close>

definition substr0 :: "string \<Rightarrow> nat option \<Rightarrow> string" where
  "substr0 s n = (case n of None \<Rightarrow> s | Some k \<Rightarrow> take k s)"

definition ResolveGameFolder :: "path_ops \<Rightarrow> filesys \<Rightarrow> path \<Rightarrow> path option \<Rightarrow> path" where
  "ResolveGameFolder ops fs file provided_folder =
     (case provided_folder of
        Some folder \<Rightarrow> folder
      | None \<Rightarrow>
          let game_folder = parent_path ops file;
              game_folder_name = filename ops game_folder
          in if ends_with game_folder_name ''-UPDATE'' \<or> ends_with game_folder_name ''-patch''
             then let base_name = substr0 game_folder_name (rfind game_folder_name CHR ''-'');
                      base_path = append_path ops (parent_path ops game_folder) base_name
                  in if fs_is_directory fs base_path then base_path else game_folder
             else game_folder)"

text \<open>
  An instance of the path operations for the examples: paths in the generic format, with
  \<^verbatim>\<open>/\<close> as the only separator and no root name.
\<close>

definition strip_filename :: "path \<Rightarrow> path" where
  "strip_filename p = rev (dropWhile (\<lambda>c. c \<noteq> CHR ''/'') (rev p))"

definition strip_separators :: "path \<Rightarrow> path" where
  "strip_separators p = rev (dropWhile (\<lambda>c. c = CHR ''/'') (rev p))"

definition generic_parent_path :: "path \<Rightarrow> path" where
  "generic_parent_path p =
     (if list_all (\<lambda>c. c = CHR ''/'') p then p
      else let d = strip_separators (strip_filename p)
           in if d = [] \<and> strip_filename p \<noteq> [] then ''/'' else d)"

definition generic_filename :: "path \<Rightarrow> string" where
  "generic_filename p = rev (takeWhile (\<lambda>c. c \<noteq> CHR ''/'') (rev p))"

definition generic_append :: "path \<Rightarrow> string \<Rightarrow> path" where
  "generic_append p q =
     (if q \<noteq> [] \<and> hd q = CHR ''/'' then q
      else if p = [] \<or> last p = CHR ''/'' then p @ q
      else p @ ''/'' @ q)"

definition generic_paths :: path_ops where
  "generic_paths =
     \<lparr>parent_path = generic_parent_path, filename = generic_filename,
      append_path = generic_append\<rparr>"

subsection \<open>\<^verbatim>\<open>ResolveGamePath\<close> and \<^verbatim>\<open>main\<close>\<close>

text \<open>
  \<^verbatim>\<open>Common::FS::FindGameByID\<close> and \<^verbatim>\<open>Config::getGameInstallDirs\<close> are not part of the
  sources: the first is a parameter (a function of the directory, the identifier and the
  depth), the second the list it returns once the arguments are parsed. Every call of
  \<^verbatim>\<open>FindGameByID\<close> is recorded as an event, with its arguments.
\<close>

type_synonym find_game = "path \<Rightarrow> string \<Rightarrow> int \<Rightarrow> path option"

definition max_depth :: int where
  "max_depth = 5"

fun search_install_dirs ::
  "find_game \<Rightarrow> string \<Rightarrow> path list \<Rightarrow> event list \<Rightarrow> path option \<times> event list" where
  "search_install_dirs find_by_id game_id [] log = (None, log)"
| "search_install_dirs find_by_id game_id (install_dir # rest) log =
     (case find_by_id install_dir game_id max_depth of
        Some found_path \<Rightarrow> (Some found_path, log @ [FindGameByID install_dir game_id max_depth])
      | None \<Rightarrow>
          search_install_dirs find_by_id game_id rest (log @ [FindGameByID install_dir game_id max_depth]))"

definition ResolveGamePath ::
  "filesys \<Rightarrow> find_game \<Rightarrow> path list \<Rightarrow> string \<Rightarrow> path \<times> event list" where
  "ResolveGamePath fs find_by_id install_dirs game_id =
     (let eboot_path = game_id in
      if fs_exists fs eboot_path then (eboot_path, [])
      else case search_install_dirs find_by_id game_id install_dirs [] of
          (Some found_path, log) \<Rightarrow> (found_path, log)
        | (None, log) \<Rightarrow> (eboot_path, log))"

text \<open>\<^verbatim>\<open>main\<close>: the value returned (or given to \<^verbatim>\<open>exit\<close>) and the events of the run.\<close>

definition main ::
  "filesys \<Rightarrow> find_game \<Rightarrow> path list \<Rightarrow> string list \<Rightarrow> int \<times> event list" where
  "main fs find_by_id install_dirs argv =
     (if length argv = 1 then
        (case Parse fs argv of
           Inl (code, st) \<Rightarrow> (code, [InitializeSystem, ShowNoArgumentDialog] @ events st)
         | Inr st \<Rightarrow> (- 1, [InitializeSystem, ShowNoArgumentDialog] @ events st))
      else
        (case Parse fs argv of
           Inl (code, st) \<Rightarrow> (code, [InitializeSystem] @ events st)
         | Inr st \<Rightarrow>
             let args = result st;
                 parsed = [InitializeSystem] @ events st
             in if \<not> has_game_argument args then (1, parsed @ [Cerr ProvideGamePath])
                else
                  let warned = (if install_dirs = [] then parsed @ [Cerr NoGameFolderWarning]
                                else parsed);
                      resolved = ResolveGamePath fs find_by_id install_dirs (game_path args);
                      eboot_path = fst resolved;
                      searched = warned @ snd resolved
                  in if \<not> fs_exists fs eboot_path
                     then (1, searched @ [Cerr (GameNotFound (game_path args))])
                     else
                       let waited = (case wait_pid args of
                                       Some pid \<Rightarrow> searched @ [WaitForPid pid]
                                     | None \<Rightarrow> searched)
                       in (0, waited @ [EmulatorRun (argv ! 0) (wait_for_debugger args)
                                          eboot_path (game_args args) (game_folder args)])))"

subsection \<open>The words of the specification\<close>

text \<open>
  A base-10 integer, as the specification's words have it: an optional sign, then one or
  more decimal digits, and nothing else.
\<close>

definition is_base10_integer :: "string \<Rightarrow> bool" where
  "is_base10_integer s \<longleftrightarrow>
     (let ds = (case s of [] \<Rightarrow> [] | c # cs \<Rightarrow> if c = CHR ''-'' \<or> c = CHR ''+'' then cs else s)
      in ds \<noteq> [] \<and> list_all isdigit ds)"

text \<open>The number such a string denotes.\<close>

definition base10_value :: "string \<Rightarrow> int" where
  "base10_value s =
     (case s of
        [] \<Rightarrow> 0
      | c # cs \<Rightarrow>
          if c = CHR ''-'' then - int (digits_value 0 cs)
          else if c = CHR ''+'' then int (digits_value 0 cs)
          else int (digits_value 0 s))"

text \<open>A file system with no entry at all, and one made of a list of directories.\<close>

definition no_files :: filesys where
  "no_files =
     \<lparr>fs_exists = (\<lambda>p. False), fs_is_directory = (\<lambda>p. False), fs_is_regular_file = (\<lambda>p. False)\<rparr>"

definition directories :: "path list \<Rightarrow> filesys" where
  "directories ds =
     \<lparr>fs_exists = (\<lambda>p. p \<in> set ds), fs_is_directory = (\<lambda>p. p \<in> set ds),
      fs_is_regular_file = (\<lambda>p. False)\<rparr>"

section \<open>Properties of the parser\<close>

subsection \<open>Unfolding the loop\<close>

lemmas handler_defs =
  handle_game_def handle_patch_def handle_fullscreen_def handle_add_game_folder_def
  handle_set_addon_folder_def handle_override_root_def handle_wait_for_pid_def
  handle_registered_def handle_separator_def handle_positional_def
  is_last_without_game_def next_is_separator_def first_char_def

lemmas state_defs =
  emit_def set_game_path_def initial_state_def ParsedArgs_default_def PrintHelp_def

lemmas run_defs =
  Parse_def parse_loop.simps parse_step_def handler_defs state_defs arg_map_def
  RegisterArguments_def ValidatePath_def

lemma parse_loop_Continue:
  "i < length argv \<Longrightarrow> parse_step fs argv i st = Continue j st' \<Longrightarrow>
   parse_loop fs argv i st = parse_loop fs argv (Suc j) st'"
  by (subst parse_loop.simps) simp

lemma parse_loop_Break:
  "i < length argv \<Longrightarrow> parse_step fs argv i st = Break st' \<Longrightarrow>
   parse_loop fs argv i st = Inr st'"
  by (subst parse_loop.simps) simp

lemma parse_loop_Exit:
  "i < length argv \<Longrightarrow> parse_step fs argv i st = Exit code st' \<Longrightarrow>
   parse_loop fs argv i st = Inl (code, st')"
  by (subst parse_loop.simps) simp

lemma parse_loop_end:
  "length argv \<le> i \<Longrightarrow> parse_loop fs argv i st = Inr st"
  by (subst parse_loop.simps) simp

lemma run_callback_Inr:
  "run_callback cb st = Inr st' \<Longrightarrow>
     game_args (result st') = game_args (result st) \<and>
     has_game_argument (result st') = has_game_argument (result st) \<and>
     game_path (result st') = game_path (result st) \<and>
     game_path_assigned st' = game_path_assigned st"
  by (cases cb) (auto simp: emit_def)

lemma run_callback_Inl:
  "run_callback cb st = Inl (c, st') \<Longrightarrow> cb = help_callback \<and> c = 0 \<and> st' = PrintHelp st"
  by (cases cb) auto

lemma parse_step_index:
  "parse_step fs argv i st = Continue j st' \<Longrightarrow> i \<le> j"
  by (auto simp: parse_step_def Let_def handler_defs
      split: if_splits option.splits sum.splits prod.splits)

lemma parse_step_separator:
  "argv ! i = ''--'' \<Longrightarrow> parse_step fs argv i st = handle_separator argv i st"
  by (simp add: parse_step_def arg_map_def RegisterArguments_def)

lemma parse_step_Break:
  "parse_step fs argv i st = Break st' \<Longrightarrow> argv ! i = ''--''"
  by (auto simp: parse_step_def Let_def handler_defs
      split: if_splits option.splits sum.splits prod.splits)

lemma parse_step_Continue_game_args:
  "parse_step fs argv i st = Continue j st' \<Longrightarrow> game_args (result st') = game_args (result st)"
  by (auto simp: parse_step_def Let_def handler_defs state_defs
      dest!: run_callback_Inr run_callback_Inl
      split: if_splits option.splits sum.splits prod.splits)

lemma parse_step_Exit_game_args:
  "parse_step fs argv i st = Exit c st' \<Longrightarrow> game_args (result st') = game_args (result st)"
  by (auto simp: parse_step_def Let_def handler_defs state_defs
      dest!: run_callback_Inr run_callback_Inl
      split: if_splits option.splits sum.splits prod.splits)

subsection \<open>The iterations of an execution\<close>

lemma reaches_parse_loop:
  "reaches fs argv i st k st' \<Longrightarrow> parse_loop fs argv i st = parse_loop fs argv k st'"
  by (induction rule: reaches.induct) (simp_all add: parse_loop_Continue)

lemma reaches_le: "reaches fs argv i st k st' \<Longrightarrow> i \<le> k"
  by (induction rule: reaches.induct) (auto dest: parse_step_index)

lemma reaches_game_args:
  "reaches fs argv i st k st' \<Longrightarrow> game_args (result st') = game_args (result st)"
  by (induction rule: reaches.induct) (auto dest: parse_step_Continue_game_args)

lemma reaches_from_start:
  assumes "reaches fs argv 1 initial_state k st" and "k < length argv"
  shows "length argv \<noteq> 1" and "Parse fs argv = parse_loop fs argv k st"
    and "game_args (result st) = []"
proof -
  have "1 \<le> k"
    using assms(1) by (rule reaches_le)
  with assms(2) show "length argv \<noteq> 1"
    by simp
  then show "Parse fs argv = parse_loop fs argv k st"
    using reaches_parse_loop [OF assms(1)] by (simp add: Parse_def)
  show "game_args (result st) = []"
    using reaches_game_args [OF assms(1)] by (simp add: initial_state_def ParsedArgs_default_def)
qed

subsection \<open>The help flags\<close>

lemma arg_map_help:
  "arg_map s = Some help_callback \<Longrightarrow> s = ''-h'' \<or> s = ''--help''"
  by (auto simp: arg_map_def RegisterArguments_def split: if_splits)

lemma run_callback_usage:
  "run_callback cb st = Inr st' \<Longrightarrow> Cout Usage \<in> set (events st') \<Longrightarrow> Cout Usage \<in> set (events st)"
  by (cases cb) (auto simp: emit_def)

lemma parse_step_usage:
  assumes "Cout Usage \<in> set (events st')"
  shows "parse_step fs argv i st = Continue j st' \<Longrightarrow> Cout Usage \<in> set (events st)"
    and "parse_step fs argv i st = Break st' \<Longrightarrow> Cout Usage \<in> set (events st)"
    and "parse_step fs argv i st = Exit c st' \<Longrightarrow> Cout Usage \<in> set (events st)"
  using assms
  by (auto simp: parse_step_def Let_def handler_defs emit_def set_game_path_def PrintHelp_def
      dest!: run_callback_Inl arg_map_help dest: run_callback_usage
      split: if_splits option.splits sum.splits prod.splits)

lemma parse_loop_usage:
  assumes "parse_loop fs argv i st = Inr st' \<or> parse_loop fs argv i st = Inl (c, st')"
    and "Cout Usage \<in> set (events st')"
  shows "Cout Usage \<in> set (events st)"
  using assms
proof (induction fs argv i st rule: parse_loop.induct)
  case (1 fs argv i st)
  show ?case
  proof (cases "i < length argv")
    case False
    with "1.prems" show ?thesis
      by (simp add: parse_loop_end)
  next
    case True
    show ?thesis
    proof (cases "parse_step fs argv i st")
      case (Continue j s)
      have "Cout Usage \<in> set (events s)"
        using "1.IH" [OF True Continue] "1.prems" parse_loop_Continue [OF True Continue]
        by simp
      then show ?thesis
        using Continue by (rule parse_step_usage(1))
    next
      case (Break s)
      then have "st' = s"
        using "1.prems"(1) parse_loop_Break [OF True Break] by simp
      with "1.prems"(2) Break show ?thesis
        by (simp add: parse_step_usage(2))
    next
      case (Exit code s)
      then have "st' = s" and "parse_step fs argv i st = Exit code st'"
        using "1.prems"(1) parse_loop_Exit [OF True Exit] by simp_all
      with "1.prems"(2) show ?thesis
        by (simp add: parse_step_usage(3))
    qed
  qed
qed

text \<open>
  C1. The claim: a token list containing \<^verbatim>\<open>-h\<close> or \<^verbatim>\<open>--help\<close> makes \<^verbatim>\<open>Parse\<close> print the
  usage text and end the process with exit code 0. The code does not: the dispatch through
  the map leaves the two help spellings out, no other branch handles them, and the token
  is reported as an unknown argument; \<^verbatim>\<open>Parse\<close> returns and \<^verbatim>\<open>main\<close> ends with code 1,
  for want of a game path. The usage text is not printed.
\<close>

theorem help_flag_reported_unknown:
  "Parse fs [''shadps4'', ''-h''] = Inr (emit (Cerr (UnknownArgument ''-h'')) initial_state) \<and>
   Parse fs [''shadps4'', ''--help''] =
     Inr (emit (Cerr (UnknownArgument ''--help'')) initial_state) \<and>
   main fs find_by_id install_dirs [''shadps4'', ''-h''] =
     (1, [InitializeSystem, Cerr (UnknownArgument ''-h''), Cerr ProvideGamePath])"
  by (simp add: main_def run_defs)

text \<open>
  X1. Whatever the command line, \<^verbatim>\<open>Parse\<close> prints the usage text in one case only: no
  argument at all, where it ends the process with exit code 1. No command line makes it
  print the usage text and end with exit code 0.
\<close>

theorem usage_only_without_arguments:
  assumes "Parse fs argv = Inr st \<or> Parse fs argv = Inl (c, st)"
    and "Cout Usage \<in> set (events st)"
  shows "length argv = 1 \<and> Parse fs argv = Inl (1, PrintHelp initial_state)"
proof (cases "length argv = 1")
  case True
  then show ?thesis
    by (simp add: Parse_def)
next
  case False
  with assms(1) have "parse_loop fs argv 1 initial_state = Inr st \<or>
      parse_loop fs argv 1 initial_state = Inl (c, st)"
    by (simp add: Parse_def)
  from parse_loop_usage [OF this assms(2)] show ?thesis
    by (simp add: initial_state_def)
qed

theorem usage_only_without_arguments_witness:
  "Parse no_files [''shadps4''] = Inl (1, PrintHelp initial_state)"
  using usage_only_without_arguments [of no_files "[''shadps4'']" "PrintHelp initial_state" 1]
  by (simp add: Parse_def state_defs)

subsection \<open>The positional game path\<close>

lemma bare_token_positional:
  assumes "first_char (argv ! i) \<noteq> CHR ''-''"
  shows "parse_step fs argv i st = handle_positional argv i st"
proof (cases "argv ! i")
  case Nil
  then show ?thesis
    by (simp add: parse_step_def arg_map_def RegisterArguments_def)
next
  case (Cons c cs)
  with assms have "c \<noteq> CHR ''-''"
    by (simp add: first_char_def)
  with Cons show ?thesis
    by (simp add: parse_step_def arg_map_def RegisterArguments_def)
qed

text \<open>
  C2, as amended. In the scenario \<^verbatim>\<open>game.elf -- --flag value\<close> \<^verbatim>\<open>Parse\<close> returns with the
  game arguments \<^verbatim>\<open>--flag\<close>, \<^verbatim>\<open>value\<close>. In general a bare token (its first character is
  not a dash) becomes the game path when it is the last token of the command line and no
  game path has been given when the scan reaches it.
\<close>

theorem trailing_bare_token_is_game_path:
  "(\<exists>st'. Parse fs [''shadps4'', ''game.elf'', ''--'', ''--flag'', ''value''] = Inr st' \<and>
      game_args (result st') = [''--flag'', ''value'']) \<and>
   (reaches fs argv 1 initial_state i st \<and> Suc i = length argv \<and>
    \<not> has_game_argument (result st) \<and> first_char (argv ! i) \<noteq> CHR ''-'' \<longrightarrow>
      Parse fs argv = Inr (set_game_path (argv ! i) st))"
proof (intro conjI impI)
  show "\<exists>st'. Parse fs [''shadps4'', ''game.elf'', ''--'', ''--flag'', ''value''] = Inr st' \<and>
      game_args (result st') = [''--flag'', ''value'']"
    by (simp add: run_defs)
next
  assume a: "reaches fs argv 1 initial_state i st \<and> Suc i = length argv \<and>
    \<not> has_game_argument (result st) \<and> first_char (argv ! i) \<noteq> CHR ''-''"
  then have in_range: "i < length argv" and reached: "reaches fs argv 1 initial_state i st"
    by simp_all
  have "parse_step fs argv i st = Continue i (set_game_path (argv ! i) st)"
    using a
    by (simp add: bare_token_positional handle_positional_def is_last_without_game_def
        next_is_separator_def)
  then have "parse_loop fs argv i st = parse_loop fs argv (Suc i) (set_game_path (argv ! i) st)"
    by (rule parse_loop_Continue [OF in_range])
  also have "\<dots> = Inr (set_game_path (argv ! i) st)"
    using a by (simp add: parse_loop_end)
  finally show "Parse fs argv = Inr (set_game_path (argv ! i) st)"
    using reaches_from_start(2) [OF reached in_range] by simp
qed

theorem trailing_bare_token_is_game_path_witness:
  "Parse no_files [''shadps4'', ''-i'', ''game.elf''] =
     Inr (set_game_path ''game.elf'' (emit SetIgnoreGamePatches initial_state))"
proof -
  let ?argv = "[''shadps4'', ''-i'', ''game.elf'']"
  let ?st = "emit SetIgnoreGamePatches initial_state"
  have step: "parse_step no_files ?argv 1 initial_state = Continue 1 ?st"
    by (simp add: parse_step_def handler_defs arg_map_def RegisterArguments_def)
  have "reaches no_files ?argv 1 initial_state 2 ?st"
    using reaches.iteration [of 1 ?argv no_files initial_state 1 ?st 2 ?st] step
    by (simp add: reaches.here numeral_2_eq_2)
  with trailing_bare_token_is_game_path [of no_files ?argv 2 ?st]
  show ?thesis
    by (simp add: first_char_def state_defs)
qed

text \<open>
  The claim as it stands fails. On its own scenario the bare token \<^verbatim>\<open>game.elf\<close> is not the
  last token: it is reported as unknown and no game path is set. The same happens to a
  bare token followed by a flag.
\<close>

theorem bare_token_before_separator_counterexample:
  "Parse no_files [''shadps4'', ''game.elf'', ''--'', ''--flag'', ''value''] =
     Inr \<lparr>result =
            \<lparr>has_game_argument = False, game_path = [], game_args = [''--flag'', ''value''],
             game_folder = None, wait_for_debugger = False, wait_pid = None\<rparr>,
          events = [Cerr (UnknownArgument ''game.elf'')],
          game_path_assigned = False\<rparr> \<and>
   Parse no_files [''shadps4'', ''game.elf'', ''-i''] =
     Inr \<lparr>result =
            \<lparr>has_game_argument = False, game_path = [], game_args = [],
             game_folder = None, wait_for_debugger = False, wait_pid = None\<rparr>,
          events = [Cerr (UnknownArgument ''game.elf''), SetIgnoreGamePatches],
          game_path_assigned = False\<rparr>"
  by (simp add: run_defs)

subsection \<open>The game arguments\<close>

lemma no_separator_no_game_args:
  "parse_loop fs argv i st = Inr st' \<or> parse_loop fs argv i st = Inl (c, st') \<Longrightarrow>
   (\<And>k s. reaches fs argv i st k s \<Longrightarrow> k < length argv \<Longrightarrow> argv ! k \<noteq> ''--'') \<Longrightarrow>
   game_args (result st') = game_args (result st)"
proof (induction fs argv i st rule: parse_loop.induct)
  case (1 fs argv i st)
  show ?case
  proof (cases "i < length argv")
    case False
    with "1.prems"(1) show ?thesis
      by (simp add: parse_loop_end)
  next
    case True
    have not_sep: "argv ! i \<noteq> ''--''"
      using "1.prems"(2) [OF reaches.here True] .
    show ?thesis
    proof (cases "parse_step fs argv i st")
      case (Continue j s)
      have "game_args (result st') = game_args (result s)"
      proof (rule "1.IH" [OF True Continue])
        show "parse_loop fs argv (Suc j) s = Inr st' \<or> parse_loop fs argv (Suc j) s = Inl (c, st')"
          using "1.prems"(1) parse_loop_Continue [OF True Continue] by simp
      next
        fix k s'
        assume "reaches fs argv (Suc j) s k s'" and "k < length argv"
        then show "argv ! k \<noteq> ''--''"
          using "1.prems"(2) reaches.iteration [OF True Continue] by blast
      qed
      then show ?thesis
        using parse_step_Continue_game_args [OF Continue] by simp
    next
      case (Break s)
      then show ?thesis
        using not_sep parse_step_Break by blast
    next
      case (Exit code s)
      then show ?thesis
        using "1.prems"(1) parse_loop_Exit [OF True Exit] parse_step_Exit_game_args [OF Exit]
        by auto
    qed
  qed
qed

text \<open>
  C3. When the scan reaches the token \<^verbatim>\<open>--\<close> at position \<open>k\<close>, \<^verbatim>\<open>Parse\<close> returns, and the
  game arguments are the tokens after position \<open>k\<close>, in their order and unchanged (with no
  token after it, a warning is printed and the game arguments stay empty); the state is
  otherwise the one the scan had at \<^verbatim>\<open>--\<close>. When the scan reaches no \<^verbatim>\<open>--\<close>, the game
  arguments are empty, whether \<^verbatim>\<open>Parse\<close> returns or ends the process.
\<close>

theorem game_args_after_separator:
  "(reaches fs argv 1 initial_state k st \<and> k < length argv \<and> argv ! k = ''--'' \<longrightarrow>
      game_args (result st) = [] \<and>
      Parse fs argv =
        Inr (if Suc k = length argv then emit (Cerr NoGameArgumentsWarning) st
             else st\<lparr>result := (result st)\<lparr>game_args := drop (Suc k) argv\<rparr>\<rparr>)) \<and>
   ((\<forall>k st. reaches fs argv 1 initial_state k st \<and> k < length argv \<longrightarrow> argv ! k \<noteq> ''--'') \<and>
    (Parse fs argv = Inr st' \<or> Parse fs argv = Inl (c, st')) \<longrightarrow>
      game_args (result st') = [])"
proof (intro conjI impI)
  assume reached: "reaches fs argv 1 initial_state k st \<and> k < length argv \<and> argv ! k = ''--''"
  then show empty: "game_args (result st) = []"
    using reaches_from_start(3) by blast
  have "parse_step fs argv k st =
      Break (if Suc k = length argv then emit (Cerr NoGameArgumentsWarning) st
             else st\<lparr>result := (result st)\<lparr>game_args := drop (Suc k) argv\<rparr>\<rparr>)"
    using reached empty by (simp add: parse_step_separator handle_separator_def)
  then show "Parse fs argv =
      Inr (if Suc k = length argv then emit (Cerr NoGameArgumentsWarning) st
           else st\<lparr>result := (result st)\<lparr>game_args := drop (Suc k) argv\<rparr>\<rparr>)"
    using reached reaches_from_start(2) parse_loop_Break by metis
next
  assume none: "(\<forall>k st. reaches fs argv 1 initial_state k st \<and> k < length argv \<longrightarrow> argv ! k \<noteq> ''--'') \<and>
    (Parse fs argv = Inr st' \<or> Parse fs argv = Inl (c, st'))"
  show "game_args (result st') = []"
  proof (cases "length argv = 1")
    case True
    with none show ?thesis
      by (auto simp: Parse_def state_defs)
  next
    case False
    with none have "parse_loop fs argv 1 initial_state = Inr st' \<or>
        parse_loop fs argv 1 initial_state = Inl (c, st')"
      by (simp add: Parse_def)
    then have "game_args (result st') = game_args (result initial_state)"
      by (rule no_separator_no_game_args) (use none in blast)
    then show ?thesis
      by (simp add: state_defs)
  qed
qed

theorem game_args_after_separator_witness:
  "Parse no_files [''shadps4'', ''-i'', ''--'', ''--flag'', ''value''] =
     Inr ((emit SetIgnoreGamePatches initial_state)
            \<lparr>result := ParsedArgs_default\<lparr>game_args := [''--flag'', ''value'']\<rparr>\<rparr>) \<and>
   game_args (result (set_game_path ''game.elf'' (emit SetIgnoreGamePatches initial_state))) = []"
proof -
  let ?argv = "[''shadps4'', ''-i'', ''--'', ''--flag'', ''value'']"
  let ?st = "emit SetIgnoreGamePatches initial_state"
  have step: "parse_step no_files ?argv 1 initial_state = Continue 1 ?st"
    by (simp add: parse_step_def handler_defs arg_map_def RegisterArguments_def)
  have "reaches no_files ?argv 1 initial_state 2 ?st"
    using reaches.iteration [of 1 ?argv no_files initial_state 1 ?st 2 ?st] step
    by (simp add: reaches.here numeral_2_eq_2)
  with game_args_after_separator [of no_files ?argv 2 ?st]
  have with_separator: "Parse no_files ?argv =
      Inr (?st\<lparr>result := (result ?st)\<lparr>game_args := drop 3 ?argv\<rparr>\<rparr>)"
    by (simp add: numeral_3_eq_3 numeral_2_eq_2)
  let ?plain = "[''shadps4'', ''-i'', ''game.elf'']"
  have "?plain ! k \<noteq> ''--''" if "reaches no_files ?plain 1 initial_state k s \<and> k < length ?plain"
    for k s
  proof -
    from that have "1 \<le> k"
      using reaches_le by blast
    with that have "k = 1 \<or> k = 2"
      by auto
    then show ?thesis
      by auto
  qed
  moreover have "Parse no_files ?plain = Inr (set_game_path ''game.elf'' ?st)"
    by (simp add: run_defs)
  ultimately have "game_args (result (set_game_path ''game.elf'' ?st)) = []"
    using game_args_after_separator [of no_files ?plain 0 initial_state
        "set_game_path ''game.elf'' ?st" 0]
    by blast
  with with_separator show ?thesis
    by (simp add: state_defs)
qed

subsection \<open>The fullscreen flag\<close>

lemma parse_step_fullscreen:
  "argv ! i = ''-f'' \<or> argv ! i = ''--fullscreen'' \<Longrightarrow>
   parse_step fs argv i st = handle_fullscreen argv i st"
  by (auto simp: parse_step_def)

text \<open>
  C7. When the scan stands at \<^verbatim>\<open>-f\<close> or \<^verbatim>\<open>--fullscreen\<close> and a value follows, the value
  \<^verbatim>\<open>true\<close> sets the fullscreen state to true and the scan goes on after the value, the
  value \<^verbatim>\<open>false\<close> sets it to false likewise, and every other value (the comparison is on
  the exact characters) is reported on the error stream and ends the process with exit
  code 1. \<^verbatim>\<open>ParseFullscreenParam\<close> accepts the same two values and no other.
\<close>

theorem fullscreen_true_or_false:
  assumes "i + 1 < length argv"
    and "argv ! i = ''-f'' \<or> argv ! i = ''--fullscreen''"
  shows "(argv ! (i + 1) = ''true'' \<longrightarrow>
            parse_loop fs argv i st = parse_loop fs argv (i + 2) (emit (SetIsFullscreen True) st)) \<and>
         (argv ! (i + 1) = ''false'' \<longrightarrow>
            parse_loop fs argv i st = parse_loop fs argv (i + 2) (emit (SetIsFullscreen False) st)) \<and>
         (argv ! (i + 1) \<noteq> ''true'' \<and> argv ! (i + 1) \<noteq> ''false'' \<longrightarrow>
            parse_loop fs argv i st =
              Inl (1, emit (Cerr (InvalidFullscreenArgument (argv ! i))) st)) \<and>
         ParseFullscreenParam (argv ! (i + 1)) =
           (if argv ! (i + 1) = ''true'' then Some True
            else if argv ! (i + 1) = ''false'' then Some False else None)"
proof -
  have in_range: "i < length argv"
    using assms(1) by simp
  have step: "parse_step fs argv i st = handle_fullscreen argv i st"
    using assms(2) by (rule parse_step_fullscreen)
  have "parse_loop fs argv i st = parse_loop fs argv (i + 2) (emit (SetIsFullscreen True) st)"
    if "argv ! (i + 1) = ''true''"
    using that assms(1) parse_loop_Continue [OF in_range, of fs st "i + 1"]
    by (simp add: step handle_fullscreen_def)
  moreover
  have "parse_loop fs argv i st = parse_loop fs argv (i + 2) (emit (SetIsFullscreen False) st)"
    if "argv ! (i + 1) = ''false''"
    using that assms(1) parse_loop_Continue [OF in_range, of fs st "i + 1"]
    by (simp add: step handle_fullscreen_def)
  moreover
  have "parse_loop fs argv i st = Inl (1, emit (Cerr (InvalidFullscreenArgument (argv ! i))) st)"
    if "argv ! (i + 1) \<noteq> ''true'' \<and> argv ! (i + 1) \<noteq> ''false''"
    using that assms(1) parse_loop_Exit [OF in_range, of fs st 1]
    by (simp add: step handle_fullscreen_def)
  ultimately show ?thesis
    by (simp add: ParseFullscreenParam_def)
qed

theorem fullscreen_true_or_false_witness:
  "Parse no_files [''shadps4'', ''--fullscreen'', ''true''] =
     Inr (emit (SetIsFullscreen True) initial_state) \<and>
   Parse no_files [''shadps4'', ''-f'', ''false''] =
     Inr (emit (SetIsFullscreen False) initial_state) \<and>
   Parse no_files [''shadps4'', ''-f'', ''True''] =
     Inl (1, emit (Cerr (InvalidFullscreenArgument ''-f'')) initial_state) \<and>
   ParseFullscreenParam ''True'' = None"
  using fullscreen_true_or_false [of 1 "[''shadps4'', ''--fullscreen'', ''true'']" no_files initial_state]
    fullscreen_true_or_false [of 1 "[''shadps4'', ''-f'', ''false'']" no_files initial_state]
    fullscreen_true_or_false [of 1 "[''shadps4'', ''-f'', ''True'']" no_files initial_state]
  by (simp add: Parse_def parse_loop_end)

subsection \<open>The game path and its flag\<close>

lemma nth_in_tl: "1 \<le> k \<Longrightarrow> k < length xs \<Longrightarrow> xs ! k \<in> set (tl xs)"
  by (cases xs; cases k) simp_all

lemma parse_step_Continue_game_path:
  assumes "parse_step fs argv i st = Continue j st'" and "i < length argv"
  shows "(has_game_argument (result st') = has_game_argument (result st) \<and>
          game_path (result st') = game_path (result st) \<and>
          game_path_assigned st' = game_path_assigned st) \<or>
         (j < length argv \<and> st' = set_game_path (argv ! j) st)"
  using assms
  by (auto simp: parse_step_def Let_def handler_defs emit_def
      dest!: run_callback_Inr run_callback_Inl
      split: if_splits option.splits sum.splits prod.splits)

lemma parse_step_Break_game_path:
  assumes "parse_step fs argv i st = Break st'"
  shows "has_game_argument (result st') = has_game_argument (result st) \<and>
         game_path (result st') = game_path (result st) \<and>
         game_path_assigned st' = game_path_assigned st"
  using assms
  by (auto simp: parse_step_def Let_def handler_defs emit_def
      split: if_splits option.splits sum.splits prod.splits)

lemma parse_loop_game_path:
  assumes "parse_loop fs argv i st = Inr st'" and "1 \<le> i"
    and "has_game_argument (result st) = game_path_assigned st"
    and "\<not> has_game_argument (result st) \<longrightarrow> game_path (result st) = []"
    and "has_game_argument (result st) \<longrightarrow> game_path (result st) \<in> set (tl argv)"
  shows "has_game_argument (result st') = game_path_assigned st' \<and>
     (\<not> has_game_argument (result st') \<longrightarrow> game_path (result st') = []) \<and>
     (has_game_argument (result st') \<longrightarrow> game_path (result st') \<in> set (tl argv))"
  using assms
proof (induction fs argv i st rule: parse_loop.induct)
  case (1 fs argv i st)
  show ?case
  proof (cases "i < length argv")
    case False
    with "1.prems" show ?thesis
      by (simp add: parse_loop_end)
  next
    case True
    show ?thesis
    proof (cases "parse_step fs argv i st")
      case (Continue j s)
      have "i \<le> j"
        using Continue by (rule parse_step_index)
      with "1.prems"(2) have "1 \<le> j"
        by simp
      then have "j < length argv \<Longrightarrow> argv ! j \<in> set (tl argv)"
        by (rule nth_in_tl)
      then have inv: "has_game_argument (result s) = game_path_assigned s \<and>
          (\<not> has_game_argument (result s) \<longrightarrow> game_path (result s) = []) \<and>
          (has_game_argument (result s) \<longrightarrow> game_path (result s) \<in> set (tl argv))"
        using parse_step_Continue_game_path [OF Continue True] "1.prems"(3-5)
        by (auto simp: set_game_path_def)
      show ?thesis
      proof (rule "1.IH" [OF True Continue])
        show "parse_loop fs argv (Suc j) s = Inr st'"
          using "1.prems"(1) parse_loop_Continue [OF True Continue] by simp
        show "1 \<le> Suc j"
          by simp
      qed (use inv in simp_all)
    next
      case (Break s)
      then have "st' = s"
        using "1.prems"(1) parse_loop_Break [OF True Break] by simp
      with parse_step_Break_game_path [OF Break] "1.prems"(3-5) show ?thesis
        by simp
    next
      case (Exit code s)
      then show ?thesis
        using "1.prems"(1) parse_loop_Exit [OF True Exit] by simp
    qed
  qed
qed

text \<open>
  C8. Whenever \<^verbatim>\<open>Parse\<close> returns, \<^verbatim>\<open>has_game_argument\<close> is true if and only if the scan
  assigned \<^verbatim>\<open>game_path\<close>. The field is a plain string in the source, so what can be read
  from the returned value is: without the flag the path is the empty string it was
  initialised to, and with the flag the path is one of the tokens after the program name.
\<close>

theorem has_game_argument_iff_assigned:
  assumes "Parse fs argv = Inr st"
  shows "has_game_argument (result st) = game_path_assigned st \<and>
     (\<not> has_game_argument (result st) \<longrightarrow> game_path (result st) = []) \<and>
     (has_game_argument (result st) \<longrightarrow> game_path (result st) \<in> set (tl argv))"
proof -
  from assms have "parse_loop fs argv 1 initial_state = Inr st"
    by (simp add: Parse_def split: if_splits)
  then show ?thesis
    by (rule parse_loop_game_path) (simp_all add: state_defs)
qed

theorem has_game_argument_iff_assigned_witness:
  "has_game_argument (result (set_game_path ''CUSA00001'' initial_state)) \<and>
   game_path_assigned (set_game_path ''CUSA00001'' initial_state) \<and>
   game_path (result (set_game_path ''CUSA00001'' initial_state)) \<in> set [''-g'', ''CUSA00001''] \<and>
   \<not> has_game_argument (result (emit SetIgnoreGamePatches initial_state)) \<and>
   \<not> game_path_assigned (emit SetIgnoreGamePatches initial_state) \<and>
   game_path (result (emit SetIgnoreGamePatches initial_state)) = []"
proof -
  have "Parse no_files [''shadps4'', ''-g'', ''CUSA00001''] =
      Inr (set_game_path ''CUSA00001'' initial_state)"
    by (simp add: Parse_def parse_loop.simps parse_step_def handle_game_def)
  from has_game_argument_iff_assigned [OF this]
  have a: "has_game_argument (result (set_game_path ''CUSA00001'' initial_state)) \<and>
      game_path_assigned (set_game_path ''CUSA00001'' initial_state) \<and>
      game_path (result (set_game_path ''CUSA00001'' initial_state)) \<in> set [''-g'', ''CUSA00001'']"
    by (simp add: set_game_path_def)
  have "Parse no_files [''shadps4'', ''-i''] = Inr (emit SetIgnoreGamePatches initial_state)"
    by (simp add: Parse_def parse_loop.simps parse_step_def handle_registered_def arg_map_def
        RegisterArguments_def)
  from has_game_argument_iff_assigned [OF this]
  have "\<not> has_game_argument (result (emit SetIgnoreGamePatches initial_state)) \<and>
      \<not> game_path_assigned (emit SetIgnoreGamePatches initial_state) \<and>
      game_path (result (emit SetIgnoreGamePatches initial_state)) = []"
    by (simp add: state_defs)
  with a show ?thesis
    by simp
qed

subsection \<open>The look-ahead for the separator\<close>

text \<open>
  C9. The branch that looks at the token after the current one for \<^verbatim>\<open>--\<close> is never
  taken: its guard asks for the current token to be the last one and for a token to
  follow it. What is left of the rule is the bare last token becoming the game path.
\<close>

theorem separator_lookahead_unreachable:
  "\<not> (is_last_without_game argv i st \<and> next_is_separator argv i) \<and>
   handle_positional argv i st =
     (if int i = int (length argv) - 1 \<and> \<not> has_game_argument (result st) \<and>
         first_char (argv ! i) \<noteq> CHR ''-''
      then Continue i (set_game_path (argv ! i) st)
      else Continue i (emit (Cerr (UnknownArgument (argv ! i))) st))"
  by (auto simp: is_last_without_game_def next_is_separator_def handle_positional_def)

theorem separator_lookahead_unreachable_witness:
  "\<not> (is_last_without_game [''shadps4'', ''game.elf'', ''--''] 1 initial_state \<and>
      next_is_separator [''shadps4'', ''game.elf'', ''--''] 1) \<and>
   handle_positional [''shadps4'', ''game.elf''] 1 initial_state =
     Continue 1 (set_game_path ''game.elf'' initial_state)"
  using separator_lookahead_unreachable [of "[''shadps4'', ''game.elf'', ''--'']" 1 initial_state]
    separator_lookahead_unreachable [of "[''shadps4'', ''game.elf'']" 1 initial_state]
  by (simp add: first_char_def initial_state_def ParsedArgs_default_def)

subsection \<open>The process identifier\<close>

lemma isdigit_not_space_or_sign:
  "isdigit c \<Longrightarrow> \<not> isspace c \<and> c \<noteq> CHR ''-'' \<and> c \<noteq> CHR ''+''"
  by (auto simp: isdigit_def isspace_def)

lemma sign_not_space: "\<not> isspace CHR ''-''" "\<not> isspace CHR ''+''"
  by (simp_all add: isspace_def)

lemma takeWhile_digits:
  assumes "list_all isdigit ds" and "rest = [] \<or> \<not> isdigit (hd rest)"
  shows "takeWhile isdigit (ds @ rest) = ds"
proof -
  have "takeWhile isdigit rest = []"
    using assms(2) by (cases rest) auto
  moreover have "takeWhile isdigit (ds @ rest) = ds @ takeWhile isdigit rest"
    using assms(1) by (intro takeWhile_append2) (simp add: list_all_iff)
  ultimately show ?thesis
    by simp
qed

lemma dropWhile_spaces:
  assumes "list_all isspace ws" and "s \<noteq> []" and "\<not> isspace (hd s)"
  shows "dropWhile isspace (ws @ s) = s"
proof -
  have "dropWhile isspace (ws @ s) = dropWhile isspace s"
    using assms(1) by (intro dropWhile_append2) (simp add: list_all_iff)
  also have "\<dots> = s"
    using assms(2,3) by (cases s) auto
  finally show ?thesis .
qed

lemma stoi_of_parts:
  assumes spaces: "list_all isspace ws"
    and sign: "sg = [] \<or> sg = ''-'' \<or> sg = ''+''"
    and some: "ds \<noteq> []"
    and digits: "list_all isdigit ds"
    and maximal: "rest = [] \<or> \<not> isdigit (hd rest)"
  shows "stoi (ws @ sg @ ds @ rest) =
     (if base10_value (sg @ ds) < INT_MIN \<or> INT_MAX < base10_value (sg @ ds)
      then Inl out_of_range else Inr (base10_value (sg @ ds)))"
proof -
  obtain d ds' where ds: "ds = d # ds'"
    using some by (cases ds) auto
  have d: "isdigit d"
    using digits ds by simp
  note nd = isdigit_not_space_or_sign [OF d]
  have run: "takeWhile isdigit (ds @ rest) = ds"
    using digits maximal by (rule takeWhile_digits)
  have "sg @ ds @ rest \<noteq> []" and "\<not> isspace (hd (sg @ ds @ rest))"
    using sign ds nd by (auto simp: sign_not_space)
  with spaces have s1: "dropWhile isspace (ws @ sg @ ds @ rest) = sg @ ds @ rest"
    by (rule dropWhile_spaces)
  from sign show ?thesis
  proof (elim disjE)
    assume "sg = []"
    then show ?thesis
      using s1 run nd some by (simp add: stoi_def base10_value_def ds Let_def)
  next
    assume "sg = ''-''"
    then show ?thesis
      using s1 run some by (simp add: stoi_def base10_value_def Let_def)
  next
    assume "sg = ''+''"
    then show ?thesis
      using s1 run some by (simp add: stoi_def base10_value_def Let_def)
  qed
qed

lemma stoi_parts:
  assumes "stoi v \<noteq> Inl invalid_argument"
  shows "\<exists>ws sg ds rest. v = ws @ sg @ ds @ rest \<and> list_all isspace ws \<and>
     (sg = [] \<or> sg = ''-'' \<or> sg = ''+'') \<and> ds \<noteq> [] \<and> list_all isdigit ds \<and>
     (rest = [] \<or> \<not> isdigit (hd rest))"
proof -
  define s1 where "s1 = dropWhile isspace v"
  define s2 where "s2 = (case s1 of [] \<Rightarrow> [] | c # cs \<Rightarrow> if c = CHR ''-'' \<or> c = CHR ''+'' then cs else s1)"
  define sg where "sg = (case s1 of [] \<Rightarrow> [] | c # cs \<Rightarrow> if c = CHR ''-'' \<or> c = CHR ''+'' then [c] else [])"
  have v: "v = takeWhile isspace v @ s1"
    by (simp add: s1_def)
  have s1: "s1 = sg @ s2"
    by (cases s1) (simp_all add: sg_def s2_def)
  have s2: "s2 = takeWhile isdigit s2 @ dropWhile isdigit s2"
    by simp
  have "takeWhile isdigit s2 \<noteq> []"
  proof
    assume "takeWhile isdigit s2 = []"
    then have "stoi v = Inl invalid_argument"
      unfolding s2_def s1_def by (simp add: stoi_def)
    with assms show False
      by simp
  qed
  moreover have "list_all isspace (takeWhile isspace v)"
    by (auto simp: list_all_iff dest: set_takeWhileD)
  moreover have "list_all isdigit (takeWhile isdigit s2)"
    by (auto simp: list_all_iff dest: set_takeWhileD)
  moreover have "dropWhile isdigit s2 = [] \<or> \<not> isdigit (hd (dropWhile isdigit s2))"
    using hd_dropWhile [of isdigit s2] by blast
  moreover have "sg = [] \<or> sg = ''-'' \<or> sg = ''+''"
    by (cases s1) (auto simp: sg_def)
  moreover have "v = takeWhile isspace v @ sg @ takeWhile isdigit s2 @ dropWhile isdigit s2"
    using v s1 s2 by simp
  ultimately show ?thesis
    by blast
qed

lemma stoi_Inr_iff:
  "stoi v = Inr n \<longleftrightarrow>
     (\<exists>ws sg ds rest. v = ws @ sg @ ds @ rest \<and> list_all isspace ws \<and>
        (sg = [] \<or> sg = ''-'' \<or> sg = ''+'') \<and> ds \<noteq> [] \<and> list_all isdigit ds \<and>
        (rest = [] \<or> \<not> isdigit (hd rest)) \<and>
        n = base10_value (sg @ ds) \<and> INT_MIN \<le> n \<and> n \<le> INT_MAX)"
proof
  assume r: "stoi v = Inr n"
  then have "stoi v \<noteq> Inl invalid_argument"
    by simp
  from stoi_parts [OF this] obtain ws sg ds rest where
    p: "v = ws @ sg @ ds @ rest" "list_all isspace ws" "sg = [] \<or> sg = ''-'' \<or> sg = ''+''"
      "ds \<noteq> []" "list_all isdigit ds" "rest = [] \<or> \<not> isdigit (hd rest)"
    by blast
  from stoi_of_parts [OF p(2-6)] r p(1)
  have "n = base10_value (sg @ ds) \<and> INT_MIN \<le> n \<and> n \<le> INT_MAX"
    by (auto split: if_splits)
  with p show "\<exists>ws sg ds rest. v = ws @ sg @ ds @ rest \<and> list_all isspace ws \<and>
        (sg = [] \<or> sg = ''-'' \<or> sg = ''+'') \<and> ds \<noteq> [] \<and> list_all isdigit ds \<and>
        (rest = [] \<or> \<not> isdigit (hd rest)) \<and>
        n = base10_value (sg @ ds) \<and> INT_MIN \<le> n \<and> n \<le> INT_MAX"
    by blast
next
  assume "\<exists>ws sg ds rest. v = ws @ sg @ ds @ rest \<and> list_all isspace ws \<and>
        (sg = [] \<or> sg = ''-'' \<or> sg = ''+'') \<and> ds \<noteq> [] \<and> list_all isdigit ds \<and>
        (rest = [] \<or> \<not> isdigit (hd rest)) \<and>
        n = base10_value (sg @ ds) \<and> INT_MIN \<le> n \<and> n \<le> INT_MAX"
  then obtain ws sg ds rest where
    p: "v = ws @ sg @ ds @ rest" "list_all isspace ws" "sg = [] \<or> sg = ''-'' \<or> sg = ''+''"
      "ds \<noteq> []" "list_all isdigit ds" "rest = [] \<or> \<not> isdigit (hd rest)"
    and n: "n = base10_value (sg @ ds)" "INT_MIN \<le> n" "n \<le> INT_MAX"
    by blast
  from stoi_of_parts [OF p(2-6)] p(1) n show "stoi v = Inr n"
    by simp
qed

lemma is_base10_integer_parts:
  "is_base10_integer v \<longleftrightarrow>
     (\<exists>sg ds. v = sg @ ds \<and> (sg = [] \<or> sg = ''-'' \<or> sg = ''+'') \<and> ds \<noteq> [] \<and>
        list_all isdigit ds)"
proof
  assume a: "is_base10_integer v"
  show "\<exists>sg ds. v = sg @ ds \<and> (sg = [] \<or> sg = ''-'' \<or> sg = ''+'') \<and> ds \<noteq> [] \<and>
        list_all isdigit ds"
  proof (cases v)
    case Nil
    with a show ?thesis by (simp add: is_base10_integer_def)
  next
    case (Cons c cs)
    show ?thesis
    proof (cases "c = CHR ''-'' \<or> c = CHR ''+''")
      case True
      with a Cons have "v = [c] @ cs \<and> cs \<noteq> [] \<and> list_all isdigit cs"
        by (auto simp: is_base10_integer_def)
      with True show ?thesis by blast
    next
      case False
      with a Cons have "v = [] @ v \<and> v \<noteq> [] \<and> list_all isdigit v"
        by (auto simp: is_base10_integer_def)
      then show ?thesis by blast
    qed
  qed
next
  assume "\<exists>sg ds. v = sg @ ds \<and> (sg = [] \<or> sg = ''-'' \<or> sg = ''+'') \<and> ds \<noteq> [] \<and>
        list_all isdigit ds"
  then obtain sg ds where p: "v = sg @ ds" "sg = [] \<or> sg = ''-'' \<or> sg = ''+''" "ds \<noteq> []"
      "list_all isdigit ds"
    by blast
  then obtain d ds' where ds: "ds = d # ds'" by (cases ds) auto
  with p have "isdigit d" by simp
  note nd = isdigit_not_space_or_sign [OF this]
  from p(2) show "is_base10_integer v"
    using p nd ds by (auto simp: is_base10_integer_def)
qed

lemma stoi_base10_integer:
  assumes "is_base10_integer v"
  shows "stoi v =
     (if base10_value v < INT_MIN \<or> INT_MAX < base10_value v then Inl out_of_range
      else Inr (base10_value v))"
proof -
  from assms obtain sg ds where p: "v = sg @ ds" "sg = [] \<or> sg = ''-'' \<or> sg = ''+''"
      "ds \<noteq> []" "list_all isdigit ds"
    unfolding is_base10_integer_parts by blast
  from stoi_of_parts [of "[]" sg ds "[]"] p show ?thesis
    by simp
qed

lemma parse_step_wait_for_pid:
  "argv ! i = ''--wait-for-pid'' \<Longrightarrow> parse_step fs argv i st = handle_wait_for_pid argv i st"
  by (simp add: parse_step_def)

text \<open>
  C6, as amended. When the scan stands at \<^verbatim>\<open>--wait-for-pid\<close> and a value follows, what
  happens is what \<^verbatim>\<open>std::stoi\<close> makes of the value. If it converts the value to \<open>n\<close>,
  \<^verbatim>\<open>wait_pid\<close> is set to \<open>n\<close> and the scan goes on after the value; if it throws, the
  error is reported on the error stream and the process ends with exit code 1, the
  result as it was. It converts the value exactly when the value is made of white space
  (possibly none), an optional sign, one or more decimal digits whose number (with the
  sign) is in the range of \<^verbatim>\<open>int\<close>, and then any characters of which the first is not a
  digit. So every base-10 integer in the range of \<^verbatim>\<open>int\<close> sets \<^verbatim>\<open>wait_pid\<close> to its
  number.
\<close>

theorem wait_for_pid_follows_stoi:
  assumes "i + 1 < length argv" and "argv ! i = ''--wait-for-pid''"
  shows "(\<forall>n. stoi (argv ! (i + 1)) = Inr n \<longrightarrow>
            parse_loop fs argv i st =
              parse_loop fs argv (i + 2) (st\<lparr>result := (result st)\<lparr>wait_pid := Some n\<rparr>\<rparr>)) \<and>
         (\<forall>e. stoi (argv ! (i + 1)) = Inl e \<longrightarrow>
            parse_loop fs argv i st = Inl (1, emit (Cerr (InvalidPidArgument e)) st)) \<and>
         (\<forall>n. stoi (argv ! (i + 1)) = Inr n \<longleftrightarrow>
            (\<exists>ws sg ds rest. argv ! (i + 1) = ws @ sg @ ds @ rest \<and> list_all isspace ws \<and>
               (sg = [] \<or> sg = ''-'' \<or> sg = ''+'') \<and> ds \<noteq> [] \<and> list_all isdigit ds \<and>
               (rest = [] \<or> \<not> isdigit (hd rest)) \<and>
               n = base10_value (sg @ ds) \<and> INT_MIN \<le> n \<and> n \<le> INT_MAX)) \<and>
         (is_base10_integer (argv ! (i + 1)) \<and> INT_MIN \<le> base10_value (argv ! (i + 1)) \<and>
          base10_value (argv ! (i + 1)) \<le> INT_MAX \<longrightarrow>
            stoi (argv ! (i + 1)) = Inr (base10_value (argv ! (i + 1))))"
proof -
  have in_range: "i < length argv"
    using assms(1) by simp
  have step: "parse_step fs argv i st = handle_wait_for_pid argv i st"
    using assms(2) by (rule parse_step_wait_for_pid)
  have "parse_loop fs argv i st =
      parse_loop fs argv (i + 2) (st\<lparr>result := (result st)\<lparr>wait_pid := Some n\<rparr>\<rparr>)"
    if "stoi (argv ! (i + 1)) = Inr n" for n
    using that assms(1) parse_loop_Continue [OF in_range, of fs st "i + 1"]
    by (simp add: step handle_wait_for_pid_def)
  moreover
  have "parse_loop fs argv i st = Inl (1, emit (Cerr (InvalidPidArgument e)) st)"
    if "stoi (argv ! (i + 1)) = Inl e" for e
    using that assms(1) parse_loop_Exit [OF in_range, of fs st 1]
    by (simp add: step handle_wait_for_pid_def)
  moreover
  have "stoi (argv ! (i + 1)) = Inr (base10_value (argv ! (i + 1)))"
    if "is_base10_integer (argv ! (i + 1)) \<and> INT_MIN \<le> base10_value (argv ! (i + 1)) \<and>
        base10_value (argv ! (i + 1)) \<le> INT_MAX"
    using that stoi_base10_integer [of "argv ! (i + 1)"] by simp
  ultimately show ?thesis
    using stoi_Inr_iff [of "argv ! (i + 1)"] by blast
qed

theorem wait_for_pid_follows_stoi_witness:
  "Parse no_files [''shadps4'', ''--wait-for-pid'', ''abc''] =
     Inl (1, emit (Cerr (InvalidPidArgument invalid_argument)) initial_state) \<and>
   Parse no_files [''shadps4'', ''--wait-for-pid'', ''4242''] =
     Inr (initial_state\<lparr>result := ParsedArgs_default\<lparr>wait_pid := Some 4242\<rparr>\<rparr>)"
proof -
  have "stoi ''abc'' = Inl invalid_argument" and "stoi ''4242'' = Inr 4242"
    by (simp_all add: stoi_def isspace_def isdigit_def INT_MIN_def INT_MAX_def)
  then show ?thesis
    using wait_for_pid_follows_stoi [of 1 "[''shadps4'', ''--wait-for-pid'', ''abc'']" no_files
        initial_state]
      wait_for_pid_follows_stoi [of 1 "[''shadps4'', ''--wait-for-pid'', ''4242'']" no_files
        initial_state]
    by (simp add: Parse_def parse_loop_end initial_state_def)
qed

text \<open>
  The claim as it stands fails in both directions: \<^verbatim>\<open>12abc\<close> is no base-10 integer and
  sets \<^verbatim>\<open>wait_pid\<close> to 12; \<^verbatim>\<open>99999999999\<close> is one and ends the process with exit code 1.
\<close>

theorem wait_for_pid_not_an_integer_counterexample:
  "\<not> is_base10_integer ''12abc'' \<and>
   Parse no_files [''shadps4'', ''--wait-for-pid'', ''12abc''] =
     Inr (initial_state\<lparr>result := ParsedArgs_default\<lparr>wait_pid := Some 12\<rparr>\<rparr>) \<and>
   is_base10_integer ''99999999999'' \<and>
   Parse no_files [''shadps4'', ''--wait-for-pid'', ''99999999999''] =
     Inl (1, emit (Cerr (InvalidPidArgument out_of_range)) initial_state)"
  by (simp add: run_defs stoi_def is_base10_integer_def isspace_def isdigit_def INT_MIN_def
      INT_MAX_def)

section \<open>Properties of the game location\<close>

subsection \<open>\<^verbatim>\<open>ResolveGamePath\<close>\<close>

lemma search_install_dirs_first_match:
  assumes "\<And>b. b \<in> set before \<Longrightarrow> find_by_id b game_id max_depth = None"
    and "find_by_id d game_id max_depth = Some p"
  shows "search_install_dirs find_by_id game_id (before @ d # rest) log =
     (Some p, log @ map (\<lambda>x. FindGameByID x game_id max_depth) (before @ [d]))"
  using assms by (induction before arbitrary: log) simp_all

lemma search_install_dirs_no_match:
  assumes "\<And>b. b \<in> set dirs \<Longrightarrow> find_by_id b game_id max_depth = None"
  shows "search_install_dirs find_by_id game_id dirs log =
     (None, log @ map (\<lambda>x. FindGameByID x game_id max_depth) dirs)"
  using assms by (induction dirs arbitrary: log) simp_all

text \<open>
  C4. When the raw identifier is an existing file system entry, \<^verbatim>\<open>ResolveGamePath\<close>
  returns it unchanged and calls \<^verbatim>\<open>FindGameByID\<close> not once. Otherwise the install
  directories are searched in their order, each with the depth 5: when \<open>d\<close> is the first
  directory with a match, the match found there is returned, and the calls made are those
  for the directories before \<open>d\<close> and for \<open>d\<close>, none for a later directory.
\<close>

theorem ResolveGamePath_first_match:
  "(fs_exists fs raw \<longrightarrow> ResolveGamePath fs find_by_id install_dirs raw = (raw, [])) \<and>
   (\<not> fs_exists fs raw \<and> install_dirs = before @ d # rest \<and>
    (\<forall>b \<in> set before. find_by_id b raw 5 = None) \<and> find_by_id d raw 5 = Some p \<longrightarrow>
      ResolveGamePath fs find_by_id install_dirs raw =
        (p, map (\<lambda>x. FindGameByID x raw 5) (before @ [d])))"
proof (intro conjI impI)
  assume "fs_exists fs raw"
  then show "ResolveGamePath fs find_by_id install_dirs raw = (raw, [])"
    by (simp add: ResolveGamePath_def)
next
  assume a: "\<not> fs_exists fs raw \<and> install_dirs = before @ d # rest \<and>
    (\<forall>b \<in> set before. find_by_id b raw 5 = None) \<and> find_by_id d raw 5 = Some p"
  then have "search_install_dirs find_by_id raw install_dirs [] =
      (Some p, [] @ map (\<lambda>x. FindGameByID x raw max_depth) (before @ [d]))"
    using search_install_dirs_first_match [of before find_by_id raw d p rest "[]"]
    by (simp add: max_depth_def)
  with a show "ResolveGamePath fs find_by_id install_dirs raw =
        (p, map (\<lambda>x. FindGameByID x raw 5) (before @ [d]))"
    by (simp add: ResolveGamePath_def max_depth_def)
qed

theorem ResolveGamePath_first_match_witness:
  "ResolveGamePath (directories [''/games/CUSA00001/eboot.bin''])
      (\<lambda>d g n. if d = ''/games'' \<or> d = ''/third'' then Some (d @ ''/'' @ g @ ''/eboot.bin'') else None)
      [''/other'', ''/games'', ''/third''] ''CUSA00001'' =
     (''/games/CUSA00001/eboot.bin'',
      [FindGameByID ''/other'' ''CUSA00001'' 5, FindGameByID ''/games'' ''CUSA00001'' 5]) \<and>
   ResolveGamePath (directories [''/games/CUSA00001/eboot.bin''])
      (\<lambda>d g n. Some ''/elsewhere'') [''/other''] ''/games/CUSA00001/eboot.bin'' =
     (''/games/CUSA00001/eboot.bin'', [])"
  using ResolveGamePath_first_match [of "directories [''/games/CUSA00001/eboot.bin'']"
      "''CUSA00001''"
      "\<lambda>d g n. if d = ''/games'' \<or> d = ''/third'' then Some (d @ ''/'' @ g @ ''/eboot.bin'') else None"
      "[''/other'', ''/games'', ''/third'']" "[''/other'']" "''/games''" "[''/third'']"
      "''/games/CUSA00001/eboot.bin''"]
    ResolveGamePath_first_match [of "directories [''/games/CUSA00001/eboot.bin'']"
      "''/games/CUSA00001/eboot.bin''" "\<lambda>d g n. Some ''/elsewhere''" "[''/other'']"]
  by (simp add: directories_def)

text \<open>
  C10. When the raw identifier is no existing entry and no install directory has a match,
  \<^verbatim>\<open>ResolveGamePath\<close> returns the raw identifier itself, after one search in every
  directory. \<^verbatim>\<open>main\<close> decides on the existence of the returned path alone: when it does
  not exist, the last thing \<^verbatim>\<open>main\<close> does is to report the identifier as given on the
  command line, and it returns 1; when it exists, \<^verbatim>\<open>main\<close> goes on to run the emulator
  and returns 0.
\<close>

theorem not_found_is_the_raw_path:
  "(\<not> fs_exists fs raw \<and> (\<forall>d \<in> set install_dirs. find_by_id d raw 5 = None) \<longrightarrow>
      ResolveGamePath fs find_by_id install_dirs raw =
        (raw, map (\<lambda>d. FindGameByID d raw 5) install_dirs)) \<and>
   (Parse fs argv = Inr st \<and> has_game_argument (result st) \<and>
    \<not> fs_exists fs (fst (ResolveGamePath fs find_by_id install_dirs (game_path (result st)))) \<longrightarrow>
      fst (main fs find_by_id install_dirs argv) = 1 \<and>
      last (snd (main fs find_by_id install_dirs argv)) =
        Cerr (GameNotFound (game_path (result st)))) \<and>
   (Parse fs argv = Inr st \<and> has_game_argument (result st) \<and>
    fs_exists fs (fst (ResolveGamePath fs find_by_id install_dirs (game_path (result st)))) \<longrightarrow>
      fst (main fs find_by_id install_dirs argv) = 0)"
proof (intro conjI impI)
  assume "\<not> fs_exists fs raw \<and> (\<forall>d \<in> set install_dirs. find_by_id d raw 5 = None)"
  then show "ResolveGamePath fs find_by_id install_dirs raw =
        (raw, map (\<lambda>d. FindGameByID d raw 5) install_dirs)"
    using search_install_dirs_no_match [of install_dirs find_by_id raw "[]"]
    by (simp add: ResolveGamePath_def max_depth_def)
next
  assume a: "Parse fs argv = Inr st \<and> has_game_argument (result st) \<and>
    \<not> fs_exists fs (fst (ResolveGamePath fs find_by_id install_dirs (game_path (result st))))"
  then have "length argv \<noteq> 1"
    by (auto simp: Parse_def)
  with a show "fst (main fs find_by_id install_dirs argv) = 1"
    and "last (snd (main fs find_by_id install_dirs argv)) =
        Cerr (GameNotFound (game_path (result st)))"
    by (simp_all add: main_def Let_def)
next
  assume a: "Parse fs argv = Inr st \<and> has_game_argument (result st) \<and>
    fs_exists fs (fst (ResolveGamePath fs find_by_id install_dirs (game_path (result st))))"
  then have "length argv \<noteq> 1"
    by (auto simp: Parse_def)
  with a show "fst (main fs find_by_id install_dirs argv) = 0"
    by (simp add: main_def Let_def)
qed

theorem not_found_is_the_raw_path_witness:
  "ResolveGamePath no_files (\<lambda>d g n. None) [''/games'', ''/more''] ''CUSA00001'' =
     (''CUSA00001'', [FindGameByID ''/games'' ''CUSA00001'' 5, FindGameByID ''/more'' ''CUSA00001'' 5]) \<and>
   fst (main no_files (\<lambda>d g n. None) [''/games'', ''/more''] [''shadps4'', ''CUSA00001'']) = 1 \<and>
   last (snd (main no_files (\<lambda>d g n. None) [''/games'', ''/more''] [''shadps4'', ''CUSA00001''])) =
     Cerr (GameNotFound ''CUSA00001'') \<and>
   fst (main (directories [''/games/CUSA00001/eboot.bin''])
          (\<lambda>d g n. Some ''/games/CUSA00001/eboot.bin'') [''/games''] [''shadps4'', ''CUSA00001'']) = 0"
proof -
  let ?argv = "[''shadps4'', ''CUSA00001'']"
  let ?st = "set_game_path ''CUSA00001'' initial_state"
  have parse: "Parse fs ?argv = Inr ?st" for fs
    by (simp add: run_defs)
  have r1: "ResolveGamePath no_files (\<lambda>d g n. None) [''/games'', ''/more''] ''CUSA00001'' =
     (''CUSA00001'', [FindGameByID ''/games'' ''CUSA00001'' 5, FindGameByID ''/more'' ''CUSA00001'' 5])"
    using not_found_is_the_raw_path [of no_files "''CUSA00001''" "[''/games'', ''/more'']"
        "\<lambda>d g n. None"]
    by (simp add: no_files_def)
  have r2: "fst (ResolveGamePath (directories [''/games/CUSA00001/eboot.bin''])
      (\<lambda>d g n. Some ''/games/CUSA00001/eboot.bin'') [''/games''] ''CUSA00001'') =
      ''/games/CUSA00001/eboot.bin''"
    by (simp add: ResolveGamePath_def directories_def)
  show ?thesis
    using r1 r2 parse
      not_found_is_the_raw_path [of no_files "''CUSA00001''" "[''/games'', ''/more'']"
        "\<lambda>d g n. None" ?argv ?st]
      not_found_is_the_raw_path [of "directories [''/games/CUSA00001/eboot.bin'']" "''CUSA00001''"
        "[''/games'']" "\<lambda>d g n. Some ''/games/CUSA00001/eboot.bin''" ?argv ?st]
    by (simp add: set_game_path_def no_files_def directories_def)
qed

subsection \<open>\<^verbatim>\<open>ResolveGameFolder\<close>\<close>

lemma ends_with_iff: "ends_with s sfx \<longleftrightarrow> (\<exists>base. s = base @ sfx)"
proof
  assume "ends_with s sfx"
  then have "s = take (length s - length sfx) s @ sfx"
    by (metis append_take_drop_id ends_with_def)
  then show "\<exists>base. s = base @ sfx" ..
next
  assume "\<exists>base. s = base @ sfx"
  then show "ends_with s sfx"
    by (auto simp: ends_with_def)
qed

lemma rfind_last:
  assumes "c \<notin> set sfx"
  shows "rfind (base @ c # sfx) c = Some (length base)"
proof -
  have "takeWhile (\<lambda>x. x \<noteq> c) (rev sfx @ c # rev base) =
      rev sfx @ takeWhile (\<lambda>x. x \<noteq> c) (c # rev base)"
    using assms by (intro takeWhile_append2) auto
  then show ?thesis
    by (simp add: rfind_def)
qed

text \<open>
  C5. A folder given by the caller is returned as it is. Without one, the result is the
  parent directory of the executable, unless the name of that directory ends with
  \<^verbatim>\<open>-UPDATE\<close> or \<^verbatim>\<open>-patch\<close>: then the last hyphen of the name is the one of the suffix,
  the name is cut there, and the directory of that name beside the parent is the result
  if it is a directory, the parent itself if not.
\<close>

theorem ResolveGameFolder_cases:
  "ResolveGameFolder ops fs file (Some folder) = folder \<and>
   (\<not> ends_with (filename ops (parent_path ops file)) ''-UPDATE'' \<and>
    \<not> ends_with (filename ops (parent_path ops file)) ''-patch'' \<longrightarrow>
      ResolveGameFolder ops fs file None = parent_path ops file) \<and>
   (filename ops (parent_path ops file) = base @ ''-UPDATE'' \<or>
    filename ops (parent_path ops file) = base @ ''-patch'' \<longrightarrow>
      rfind (filename ops (parent_path ops file)) CHR ''-'' = Some (length base) \<and>
      ResolveGameFolder ops fs file None =
        (if fs_is_directory fs (append_path ops (parent_path ops (parent_path ops file)) base)
         then append_path ops (parent_path ops (parent_path ops file)) base
         else parent_path ops file))"
proof (intro conjI impI)
  show "ResolveGameFolder ops fs file (Some folder) = folder"
    by (simp add: ResolveGameFolder_def)
next
  assume "\<not> ends_with (filename ops (parent_path ops file)) ''-UPDATE'' \<and>
    \<not> ends_with (filename ops (parent_path ops file)) ''-patch''"
  then show "ResolveGameFolder ops fs file None = parent_path ops file"
    by (simp add: ResolveGameFolder_def)
next
  assume name: "filename ops (parent_path ops file) = base @ ''-UPDATE'' \<or>
    filename ops (parent_path ops file) = base @ ''-patch''"
  then show rf: "rfind (filename ops (parent_path ops file)) CHR ''-'' = Some (length base)"
    using rfind_last [of "CHR ''-''" "''UPDATE''" base] rfind_last [of "CHR ''-''" "''patch''" base]
    by auto
  have "ends_with (filename ops (parent_path ops file)) ''-UPDATE'' \<or>
      ends_with (filename ops (parent_path ops file)) ''-patch''"
    using name by (auto simp: ends_with_iff)
  moreover have "substr0 (filename ops (parent_path ops file))
      (rfind (filename ops (parent_path ops file)) CHR ''-'') = base"
    using name by (auto simp: rf substr0_def)
  ultimately show "ResolveGameFolder ops fs file None =
        (if fs_is_directory fs (append_path ops (parent_path ops (parent_path ops file)) base)
         then append_path ops (parent_path ops (parent_path ops file)) base
         else parent_path ops file)"
    by (simp add: ResolveGameFolder_def Let_def)
qed

lemmas generic_defs = generic_paths_def generic_parent_path_def generic_filename_def
  generic_append_def strip_filename_def strip_separators_def

theorem ResolveGameFolder_cases_witness:
  "ResolveGameFolder generic_paths (directories [''/games/MyGame''])
      ''/games/MyGame-UPDATE/eboot.bin'' None = ''/games/MyGame'' \<and>
   ResolveGameFolder generic_paths (directories [])
      ''/games/MyGame-UPDATE/eboot.bin'' None = ''/games/MyGame-UPDATE'' \<and>
   ResolveGameFolder generic_paths (directories [''/games/My-Game''])
      ''/games/My-Game-patch/eboot.bin'' None = ''/games/My-Game'' \<and>
   ResolveGameFolder generic_paths (directories [''/games/MyGame''])
      ''/games/MyGame/eboot.bin'' None = ''/games/MyGame'' \<and>
   ResolveGameFolder generic_paths (directories [''/games/MyGame''])
      ''/games/MyGame-UPDATE/eboot.bin'' (Some ''/elsewhere'') = ''/elsewhere''"
  using ResolveGameFolder_cases [of generic_paths "directories [''/games/MyGame'']"
      "''/games/MyGame-UPDATE/eboot.bin''" "''/elsewhere''" "''MyGame''"]
    ResolveGameFolder_cases [of generic_paths "directories []"
      "''/games/MyGame-UPDATE/eboot.bin''" "''/elsewhere''" "''MyGame''"]
    ResolveGameFolder_cases [of generic_paths "directories [''/games/My-Game'']"
      "''/games/My-Game-patch/eboot.bin''" "''/elsewhere''" "''My-Game''"]
    ResolveGameFolder_cases [of generic_paths "directories [''/games/MyGame'']"
      "''/games/MyGame/eboot.bin''" "''/elsewhere''" "''MyGame''"]
  by (simp add: generic_defs directories_def ends_with_def)

end
